theory Spec2Isabelle
  imports
    Main
    "HOL-Library.Multiset"
    "HOL-Library.List_Lexorder"
    "HOL-Library.Char_ord"
begin

section \<open>Values and errors\<close>

text \<open>
  The cell values a row of an in-memory table holds: \<^verbatim>\<open>None\<close>, integers, byte strings and
  callables. A callable is a function identifier; what it returns when it is called with a
  row is given by an interpretation \<open>call\<close> that the functions below take as a parameter.
\<close>

type_synonym fid = nat

datatype pyval = PNone | PInt int | PStr string | PCallable fid

datatype error = ValueError string | KeyError string | AttributeError string

section \<open>columns.py\<close>

text \<open>
  \<^verbatim>\<open>Column.ASC = 1\<close>, \<^verbatim>\<open>Column.DESC = 2\<close>. The \<^verbatim>\<open>direction\<close> argument is a string or any
  other value; a value that is not a string is stored unchanged (integers stand for these).
\<close>

definition ASC :: int where
  "ASC = 1"

definition DESC :: int where
  "DESC = 2"

datatype dir_arg = DirStr string | DirVal int

text \<open>
  \<^verbatim>\<open>
  def _set_direction(self, value):
      if isinstance(value, six.string_types):
          if value in ('asc', 'desc'):
              self._direction = (value == 'asc') and Column.ASC or Column.DESC
          else:
              raise ValueError('Invalid direction value: %s' % value)
      else:
          self._direction = value
  \<close>
\<close>

fun set_direction :: "dir_arg \<Rightarrow> error + int" where
  "set_direction (DirStr v) =
     (if v \<in> set [''asc'', ''desc'']
      then Inr (if v = ''asc'' then ASC else DESC)
      else Inl (ValueError (''Invalid direction value: '' @ v)))"
| "set_direction (DirVal v) = Inr v"

record column =
  verbose_name :: "string option"
  model_rel :: "string option"
  default :: pyval
  visible :: bool
  inaccessible :: bool
  sortable :: "bool option"
  direction :: int
  creation_counter :: int

record col_args =
  arg_verbose_name :: "string option"
  arg_model_rel :: "string option"
  arg_default :: pyval
  arg_visible :: bool
  arg_inaccessible :: bool
  arg_sortable :: "bool option"
  arg_direction :: dir_arg

text \<open>
  \<^verbatim>\<open>Column.__init__\<close>. The class attribute \<^verbatim>\<open>Column.creation_counter\<close> is the state: the
  function takes its value and returns the new one. The assignment to \<^verbatim>\<open>self.direction\<close>
  runs the setter above and may raise, before the counter is read or incremented.
\<close>

definition Column_init :: "col_args \<Rightarrow> int \<Rightarrow> (error + column) \<times> int" where
  "Column_init a counter =
     (case set_direction (arg_direction a) of
        Inl e \<Rightarrow> (Inl e, counter)
      | Inr d \<Rightarrow>
          (Inr \<lparr> verbose_name = arg_verbose_name a, model_rel = arg_model_rel a,
                 default = arg_default a, visible = arg_visible a,
                 inaccessible = arg_inaccessible a, sortable = arg_sortable a,
                 direction = d, creation_counter = counter \<rparr>,
           counter + 1))"

text \<open>The default arguments of the constructor.\<close>

definition default_args :: col_args where
  "default_args =
     \<lparr> arg_verbose_name = None, arg_model_rel = None, arg_default = PNone,
       arg_visible = True, arg_inaccessible = False, arg_sortable = None,
       arg_direction = DirVal ASC \<rparr>"

text \<open>
  A run of the process constructs columns one after the other; a construction that raises
  yields no column. The result lists the columns in the order of their construction.
\<close>

fun construct_columns :: "col_args list \<Rightarrow> int \<Rightarrow> column list \<times> int" where
  "construct_columns [] counter = ([], counter)"
| "construct_columns (a # as) counter =
     (case Column_init a counter of
        (Inl e, counter') \<Rightarrow> construct_columns as counter'
      | (Inr c, counter') \<Rightarrow>
          (case construct_columns as counter' of (cs, counter'') \<Rightarrow> (c # cs, counter'')))"

text \<open>
  The acceptance condition in the words of the specification: the token is \<^verbatim>\<open>asc\<close> or
  \<^verbatim>\<open>desc\<close> when letter case is ignored.
\<close>

definition ascii_lower :: "char \<Rightarrow> char" where
  "ascii_lower c =
     (if CHR ''A'' \<le> c \<and> c \<le> CHR ''Z'' then char_of (of_char c + (32 :: nat)) else c)"

definition accepted_ignoring_case :: "string \<Rightarrow> bool" where
  "accepted_ignoring_case s = (map ascii_lower s \<in> set [''asc'', ''desc''])"

section \<open>memory.py\<close>

text \<open>
  A row of an in-memory table is a dictionary from field names to values. The table holds a
  list of references to such dictionaries, and the store maps each reference to the
  dictionary it points to, so that two lists holding the same reference share the row.
\<close>

type_synonym row = "string \<Rightarrow> pyval option"

type_synonym ref = nat

type_synonym heap = "ref \<Rightarrow> row"

text \<open>
  The builtin \<^verbatim>\<open>cmp\<close> of Python 2, which \<^verbatim>\<open>list.sort(cmp=...)\<close> needs: values of one type
  compare by value (strings bytewise), and values of different types compare by type, with
  \<^verbatim>\<open>None\<close> below numbers, numbers below every other type, and the other types by the name
  of the type (\<^verbatim>\<open>function\<close> before \<^verbatim>\<open>str\<close>). Two callables compare by identity.
\<close>

definition cmp3 :: "'a::linorder \<Rightarrow> 'a \<Rightarrow> int" where
  "cmp3 a b = (if a < b then - 1 else if a = b then 0 else 1)"

fun type_rank :: "pyval \<Rightarrow> nat" where
  "type_rank PNone = 0"
| "type_rank (PInt i) = 1"
| "type_rank (PCallable f) = 2"
| "type_rank (PStr s) = 3"

fun py_cmp :: "pyval \<Rightarrow> pyval \<Rightarrow> int" where
  "py_cmp (PInt a) (PInt b) = cmp3 a b"
| "py_cmp (PStr a) (PStr b) = cmp3 a b"
| "py_cmp (PCallable a) (PCallable b) = cmp3 a b"
| "py_cmp a b = cmp3 (type_rank a) (type_rank b)"

text \<open>\<^verbatim>\<open>x.get(name)\<close>: the value under the key, \<^verbatim>\<open>None\<close> when the key is absent.\<close>

definition dict_get :: "row \<Rightarrow> string \<Rightarrow> pyval" where
  "dict_get x k = (case x k of None \<Rightarrow> PNone | Some v \<Rightarrow> v)"

text \<open>
  \<^verbatim>\<open>(callable(lhs) and [lhs(x)] or [lhs])[0]\<close> with \<^verbatim>\<open>lhs = x.get(name)\<close>: a callable value is
  called with the row that holds it.
\<close>

definition cell :: "(fid \<Rightarrow> row \<Rightarrow> pyval) \<Rightarrow> row \<Rightarrow> string \<Rightarrow> pyval" where
  "cell call x name = (case dict_get x name of PCallable f \<Rightarrow> call f x | v \<Rightarrow> v)"

text \<open>
  The inner function \<^verbatim>\<open>_cmp\<close> of \<^verbatim>\<open>sort_table\<close>:
  \<^verbatim>\<open>
  def _cmp(x, y):
      for name, reverse in instructions:
          lhs, rhs = x.get(name), y.get(name)
          res = cmp((callable(lhs) and [lhs(x)] or [lhs])[0],
                    (callable(rhs) and [rhs(y)] or [rhs])[0])
          if res != 0:
              return reverse and -res or res
      return 0
  \<close>
\<close>

fun cmp_rows ::
  "(fid \<Rightarrow> row \<Rightarrow> pyval) \<Rightarrow> (string \<times> bool) list \<Rightarrow> row \<Rightarrow> row \<Rightarrow> int" where
  "cmp_rows call [] x y = 0"
| "cmp_rows call ((name, reverse) # rest) x y =
     (let res = py_cmp (cell call x name) (cell call y name)
      in if res \<noteq> 0 then (if reverse then - res else res)
         else cmp_rows call rest x y)"

text \<open>
  \<^verbatim>\<open>
  for o in order_by:
      if o.startswith('-'):
          instructions.append((o[1:], True,))
      else:
          instructions.append((o, False,))
  \<close>
\<close>

fun instructions :: "string list \<Rightarrow> (string \<times> bool) list" where
  "instructions [] = []"
| "instructions (o' # os) =
     (case o' of
        c # cs \<Rightarrow> if c = CHR ''-'' then (cs, True) else (o', False)
      | [] \<Rightarrow> (o', False)) # instructions os"

text \<open>
  \<^verbatim>\<open>list.sort(cmp=c)\<close> is a stable sort. It is modelled by the stable insertion sort: each
  element goes in front of the first element it is not greater than, the elements taken
  from the last to the first. For a comparison that is a total preorder every stable sort
  returns the same list.
\<close>

fun insort_cmp :: "('a \<Rightarrow> 'a \<Rightarrow> int) \<Rightarrow> 'a \<Rightarrow> 'a list \<Rightarrow> 'a list" where
  "insort_cmp c x [] = [x]"
| "insort_cmp c x (y # ys) = (if c x y \<le> 0 then x # y # ys else y # insort_cmp c x ys)"

definition list_sort :: "('a \<Rightarrow> 'a \<Rightarrow> int) \<Rightarrow> 'a list \<Rightarrow> 'a list" where
  "list_sort c xs = foldr (insort_cmp c) xs []"

text \<open>
  \<^verbatim>\<open>sort_table(data, order_by)\<close> sorts the list \<^verbatim>\<open>data\<close> in place; the model returns the
  sorted list. The rows are read through the store.
\<close>

definition sort_table ::
  "(fid \<Rightarrow> row \<Rightarrow> pyval) \<Rightarrow> heap \<Rightarrow> ref list \<Rightarrow> string list \<Rightarrow> ref list" where
  "sort_table call h data order_by =
     list_sort (\<lambda>x y. cmp_rows call (instructions order_by) (h x) (h y)) data"

text \<open>
  A bound column pairs a column with its name in the table and the key its values are
  stored under in a row (\<^verbatim>\<open>src_accessor\<close>). The class is declared in \<^verbatim>\<open>base.py\<close>; the three
  attributes the code below reads are the fields.
\<close>

record bound_column =
  bc_name :: string
  bc_column :: column
  src_accessor :: string

text \<open>
  The inner loop of \<^verbatim>\<open>MemoryTable._build_snapshot\<close>, on the row at reference \<^verbatim>\<open>src_row\<close>:
  \<^verbatim>\<open>
  for column in self.columns.all():
      if src_row.get(column.src_accessor, None) is None:
          src_row[column.src_accessor] = column.get_default(BoundRow(self, src_row))
  \<close>
  \<^verbatim>\<open>get_default\<close> is a method of \<^verbatim>\<open>base.py\<close> and a parameter here: the default of a column
  for a row as the row is at that moment.
\<close>

fun fill_defaults ::
  "(bound_column \<Rightarrow> row \<Rightarrow> pyval) \<Rightarrow> ref \<Rightarrow> bound_column list \<Rightarrow> heap \<Rightarrow> heap" where
  "fill_defaults get_default src_row [] h = h"
| "fill_defaults get_default src_row (c # cs) h =
     fill_defaults get_default src_row cs
       (if dict_get (h src_row) (src_accessor c) = PNone
        then h(src_row := (h src_row)(src_accessor c \<mapsto> get_default c (h src_row)))
        else h)"

text \<open>
  \<^verbatim>\<open>
  snapshot = copy.copy(self._data)
  for src_row in snapshot:
      ... (the loop above)
  if self.order_by:
      actual_order_by = self._resolve_sort_directions(self.order_by)
      sort_table(snapshot, self._col_names_to_src_names(actual_order_by))
  return snapshot
  \<close>
  \<^verbatim>\<open>copy.copy\<close> of a list is a new list of the same references. The two methods
  \<^verbatim>\<open>_resolve_sort_directions\<close> and \<^verbatim>\<open>_col_names_to_src_names\<close> are defined in \<^verbatim>\<open>base.py\<close>
  and are parameters. The result is the snapshot and the store after the call; the list
  \<^verbatim>\<open>self._data\<close> itself is not assigned to.
\<close>

definition build_snapshot ::
  "(fid \<Rightarrow> row \<Rightarrow> pyval) \<Rightarrow> (bound_column \<Rightarrow> row \<Rightarrow> pyval) \<Rightarrow>
   (string list \<Rightarrow> string list) \<Rightarrow> (string list \<Rightarrow> string list) \<Rightarrow>
   bound_column list \<Rightarrow> string list \<Rightarrow> ref list \<Rightarrow> heap \<Rightarrow> ref list \<times> heap" where
  "build_snapshot call get_default resolve_sort_directions col_names_to_src_names
     columns order_by data h =
     (let snapshot = data;
          h' = fold (\<lambda>src_row. fill_defaults get_default src_row columns) snapshot h
      in if order_by \<noteq> []
         then (sort_table call h' snapshot
                 (col_names_to_src_names (resolve_sort_directions order_by)), h')
         else (snapshot, h'))"

text \<open>
  What the inner loop does to one dictionary, without the store: used to state what a
  build leaves in each row.
\<close>

fun fill_row :: "(bound_column \<Rightarrow> row \<Rightarrow> pyval) \<Rightarrow> bound_column list \<Rightarrow> row \<Rightarrow> row" where
  "fill_row get_default [] r = r"
| "fill_row get_default (c # cs) r =
     fill_row get_default cs
       (if dict_get r (src_accessor c) = PNone
        then r(src_accessor c \<mapsto> get_default c r) else r)"

text \<open>
  The value of a record that is compared for a key, in the words of the specification: the
  value the record holds for the key, \<^verbatim>\<open>None\<close> when it holds none; a value that is a callable
  is invoked, and what it returns is the value compared.
\<close>

definition compared_value :: "(fid \<Rightarrow> row \<Rightarrow> pyval) \<Rightarrow> row \<Rightarrow> string \<Rightarrow> pyval" where
  "compared_value call x k =
     (case x k of
        None \<Rightarrow> PNone
      | Some (PCallable f) \<Rightarrow> call f x
      | Some v \<Rightarrow> v)"

text \<open>
  The comparison of one key, in the words of the specification: the natural order of the
  two compared values, inverted when the key is descending.
\<close>

definition key_cmp :: "(fid \<Rightarrow> row \<Rightarrow> pyval) \<Rightarrow> string \<times> bool \<Rightarrow> row \<Rightarrow> row \<Rightarrow> int" where
  "key_cmp call i x y =
     (if snd i
      then - py_cmp (compared_value call x (fst i)) (compared_value call y (fst i))
      else py_cmp (compared_value call x (fst i)) (compared_value call y (fst i)))"

text \<open>A comparison function that is a total preorder.\<close>

definition cmp_antisym :: "('a \<Rightarrow> 'a \<Rightarrow> int) \<Rightarrow> bool" where
  "cmp_antisym c = (\<forall>x y. c y x = - c x y)"

definition cmp_trans :: "('a \<Rightarrow> 'a \<Rightarrow> int) \<Rightarrow> bool" where
  "cmp_trans c = (\<forall>x y z. c x y \<le> 0 \<and> c y z \<le> 0 \<longrightarrow> c x z \<le> 0)"

text \<open>
  Data for the examples: a table of four countries with a column \<^verbatim>\<open>population\<close> and a
  column \<^verbatim>\<open>system\<close> whose default is \<^verbatim>\<open>republic\<close>; no value is callable, and the default of a
  column is the literal it was given.
\<close>

definition example_column :: "string \<Rightarrow> pyval \<Rightarrow> bound_column" where
  "example_column n d =
     \<lparr> bc_name = n,
       bc_column = \<lparr> verbose_name = None, model_rel = None, default = d, visible = True,
                     inaccessible = False, sortable = None, direction = ASC,
                     creation_counter = 0 \<rparr>,
       src_accessor = n \<rparr>"

definition example_columns :: "bound_column list" where
  "example_columns =
     [example_column ''population'' PNone, example_column ''system'' (PStr ''republic'')]"

definition literal_default :: "bound_column \<Rightarrow> row \<Rightarrow> pyval" where
  "literal_default c r = default (bc_column c)"

definition no_calls :: "fid \<Rightarrow> row \<Rightarrow> pyval" where
  "no_calls f r = PNone"

definition example_heap :: heap where
  "example_heap =
     (\<lambda>r. Map.empty)
     (0 := [''population'' \<mapsto> PInt 30],
      1 := [''population'' \<mapsto> PInt 6, ''system'' \<mapsto> PStr ''republic''],
      2 := [''population'' \<mapsto> PInt 64, ''system'' \<mapsto> PNone],
      3 := [''population'' \<mapsto> PInt 81, ''system'' \<mapsto> PStr ''monarchy''])"

text \<open>
  The same countries with a key \<^verbatim>\<open>rank\<close> whose value is a callable in every row: called
  with a row, it returns the negated population of that row.
\<close>

definition negated_population :: "fid \<Rightarrow> row \<Rightarrow> pyval" where
  "negated_population f r = (case dict_get r ''population'' of PInt i \<Rightarrow> PInt (- i) | v \<Rightarrow> v)"

definition callable_heap :: heap where
  "callable_heap =
     (\<lambda>r. Map.empty)
     (0 := [''population'' \<mapsto> PInt 30, ''rank'' \<mapsto> PCallable 0],
      1 := [''population'' \<mapsto> PInt 6, ''rank'' \<mapsto> PCallable 0],
      2 := [''population'' \<mapsto> PInt 64, ''rank'' \<mapsto> PCallable 0],
      3 := [''population'' \<mapsto> PInt 81, ''rank'' \<mapsto> PCallable 0])"

section \<open>models.py: resolving an accessor\<close>

text \<open>
  The record of a model table is a model instance. An instance has attributes; the value of
  an attribute is \<^verbatim>\<open>None\<close>, a number, a string, another instance (a relationship) or a
  callable (a method of the model). A callable stands for the value it returns when it is
  called without arguments. Only instances carry attributes in this model: the attributes
  Python gives to numbers, strings and functions are left out.
\<close>

datatype pyobj = ONone | OInt int | OStr string | OCallable pyobj | OInst "(string \<times> pyobj) list"

text \<open>
  \<^verbatim>\<open>hasattr(current, bit)\<close> and \<^verbatim>\<open>getattr(current, bit)\<close> in one function: \<^verbatim>\<open>None\<close> when the
  attribute does not exist.
\<close>

fun get_attr :: "pyobj \<Rightarrow> string \<Rightarrow> pyobj option" where
  "get_attr (OInst attrs) b = map_of attrs b"
| "get_attr obj b = None"

text \<open>
\<^verbatim>\<open>if callable(current): current = current()\<close>
\<close>

fun call_if_callable :: "pyobj \<Rightarrow> pyobj" where
  "call_if_callable (OCallable r) = r"
| "call_if_callable obj = obj"

text \<open>
  \<^verbatim>\<open>src_accessor.split('__')\<close>: the string is cut at each occurrence of two underscores,
  found from the left; the first argument is the piece read so far.
\<close>

fun split_dunder :: "string \<Rightarrow> string \<Rightarrow> string list" where
  "split_dunder acc [] = [acc]"
| "split_dunder acc [c] = [acc @ [c]]"
| "split_dunder acc (c # d # cs) =
     (if c = CHR ''_'' \<and> d = CHR ''_'' then acc # split_dunder [] cs
      else split_dunder (acc @ [c]) (d # cs))"

text \<open>
  The loop of \<^verbatim>\<open>BoundModelRow._default_render\<close>:
  \<^verbatim>\<open>
  for bit in bits:
      if not hasattr(current, bit):
          raise ValueError("Could not resolve %s from %s" % (bit, boundcol.src_accessor))
      current = getattr(current, bit)
      if callable(current):
          current = current()
      if current is None:
          break
  \<close>
\<close>

fun resolve_bits :: "string \<Rightarrow> string list \<Rightarrow> pyobj \<Rightarrow> error + pyobj" where
  "resolve_bits accessor [] current = Inr current"
| "resolve_bits accessor (b # bs) current =
     (case get_attr current b of
        None \<Rightarrow> Inl (ValueError (''Could not resolve '' @ b @ '' from '' @ accessor))
      | Some v \<Rightarrow>
          (let current' = call_if_callable v
           in if current' = ONone then Inr ONone else resolve_bits accessor bs current'))"

text \<open>
  \<^verbatim>\<open>
  if current is None:
      if boundcol.column.default is not None:
          return boundcol.get_default(self)
  return current
  \<close>
  \<^verbatim>\<open>get_default\<close> is a method of \<^verbatim>\<open>base.py\<close> and a parameter.
\<close>

definition default_render ::
  "(bound_column \<Rightarrow> pyobj \<Rightarrow> pyobj) \<Rightarrow> bound_column \<Rightarrow> pyobj \<Rightarrow> error + pyobj" where
  "default_render get_default boundcol data =
     (case resolve_bits (src_accessor boundcol) (split_dunder [] (src_accessor boundcol)) data of
        Inl e \<Rightarrow> Inl e
      | Inr current \<Rightarrow>
          if current = ONone \<and> default (bc_column boundcol) \<noteq> PNone
          then Inr (get_default boundcol data)
          else Inr current)"

text \<open>
  Data for the examples: two countries of the test data, one with a capital and one
  without, and a column with a given accessor.
\<close>

definition berlin :: pyobj where
  "berlin = OInst [(''id'', OInt 1), (''name'', OStr ''Berlin''), (''population'', OInt 30)]"

definition germany :: pyobj where
  "germany = OInst [(''id'', OInt 2), (''name'', OStr ''Germany''), (''tld'', OStr ''de''),
     (''capital'', berlin), (''system'', ONone),
     (''example_domain'', OCallable (OStr ''example.de''))]"

definition austria :: pyobj where
  "austria = OInst [(''id'', OInt 1), (''name'', OStr ''Austria''), (''tld'', OStr ''au''),
     (''capital'', ONone), (''system'', OStr ''republic''),
     (''example_domain'', OCallable (OStr ''example.au''))]"

definition model_column :: "string \<Rightarrow> string \<Rightarrow> pyval \<Rightarrow> bound_column" where
  "model_column n rel d = (example_column n d)\<lparr>src_accessor := rel\<rparr>"

definition no_default :: "bound_column \<Rightarrow> pyobj \<Rightarrow> pyobj" where
  "no_default c d = ONone"

section \<open>models.py: assembling the columns of a model table\<close>

text \<open>
  An \<^verbatim>\<open>OrderedDict\<close> is a list of pairs with distinct keys, in the order of insertion:
  assigning to a key it has replaces the value where it stands, assigning to a new key
  appends. \<^verbatim>\<open>OrderedDict(pairs)\<close> and \<^verbatim>\<open>update\<close> assign the pairs one after the other.
\<close>

type_synonym 'v odict = "(string \<times> 'v) list"

fun od_set :: "string \<Rightarrow> 'v \<Rightarrow> 'v odict \<Rightarrow> 'v odict" where
  "od_set k v [] = [(k, v)]"
| "od_set k v ((k', v') # d) = (if k = k' then (k, v) # d else (k', v') # od_set k v d)"

definition od_update :: "'v odict \<Rightarrow> (string \<times> 'v) list \<Rightarrow> 'v odict" where
  "od_update d kvs = fold (\<lambda>(k, v). od_set k v) kvs d"

definition OrderedDict :: "(string \<times> 'v) list \<Rightarrow> 'v odict" where
  "OrderedDict kvs = od_update [] kvs"

text \<open>
\<^verbatim>\<open>field_dict.get(c)\<close>, on a dictionary of columns: \<^verbatim>\<open>None\<close> when the key is absent.
\<close>

definition od_get :: "'v option odict \<Rightarrow> string \<Rightarrow> 'v option" where
  "od_get d k = (case map_of d k of None \<Rightarrow> None | Some v \<Rightarrow> v)"

text \<open>
  A field of the model, as \<^verbatim>\<open>model._meta.fields + model._meta.many_to_many\<close> lists them.
\<close>

record field =
  f_name :: string
  f_verbose_name :: string

text \<open>
  The first loop of \<^verbatim>\<open>columns_for_model\<close>. An option that is \<^verbatim>\<open>None\<close> or empty is the empty
  list: the code only tests its truth value before it looks into it.
  \<^verbatim>\<open>
  for f in opts.fields + opts.many_to_many:
      if (columns and f.name not in columns) or (exclude and f.name in exclude):
          continue
      column = Column(verbose_name=f.verbose_name)
      if column:
          field_list.append((f.name, column))
  \<close>
  Each \<^verbatim>\<open>Column(...)\<close> takes the next value of the creation counter. A column object is
  always true, and the constructor does not raise with these arguments
  (lemma \<open>Column_init_default_args\<close>).
\<close>

fun field_list_loop ::
  "field list \<Rightarrow> string list \<Rightarrow> string list \<Rightarrow> int \<Rightarrow> (string \<times> column) list \<times> int" where
  "field_list_loop [] columns exclude counter = ([], counter)"
| "field_list_loop (f # fs) columns exclude counter =
     (if (columns \<noteq> [] \<and> f_name f \<notin> set columns) \<or> (exclude \<noteq> [] \<and> f_name f \<in> set exclude)
      then field_list_loop fs columns exclude counter
      else
        (case Column_init (default_args\<lparr>arg_verbose_name := Some (f_verbose_name f)\<rparr>) counter of
           (Inr column, counter') \<Rightarrow>
             (case field_list_loop fs columns exclude counter' of
                (rest, counter'') \<Rightarrow> ((f_name f, column) # rest, counter''))
         | (Inl e, counter') \<Rightarrow> field_list_loop fs columns exclude counter'))"

text \<open>
  \<^verbatim>\<open>
  field_dict = OrderedDict(field_list)
  if columns:
      field_dict = OrderedDict(
          [(c, field_dict.get(c)) for c in columns
              if ((not exclude) or (exclude and c not in exclude))])
  return field_dict
  \<close>
\<close>

definition columns_for_model ::
  "field list \<Rightarrow> string list \<Rightarrow> string list \<Rightarrow> int \<Rightarrow> column option odict \<times> int" where
  "columns_for_model model_fields columns exclude counter =
     (case field_list_loop model_fields columns exclude counter of
        (field_list, counter') \<Rightarrow>
          (let field_dict = OrderedDict (map (\<lambda>(n, c). (n, Some c)) field_list)
           in if columns \<noteq> []
              then (OrderedDict
                      (map (\<lambda>c. (c, od_get field_dict c))
                         (filter (\<lambda>c. exclude = [] \<or> (exclude \<noteq> [] \<and> c \<notin> set exclude)) columns)),
                    counter')
              else (field_dict, counter')))"

text \<open>
  \<^verbatim>\<open>ModelTableMetaclass.__new__\<close>: the declared columns (collected by the metaclass of
  \<^verbatim>\<open>base.py\<close>, an input here) override the columns of the model.
  \<^verbatim>\<open>
  if opts.model:
      columns = columns_for_model(opts.model, opts.columns, opts.exclude)
      columns.update(self.declared_columns)
      self.base_columns = columns
  \<close>
\<close>

definition ModelTableMetaclass_new ::
  "field list option \<Rightarrow> string list \<Rightarrow> string list \<Rightarrow> column odict \<Rightarrow> int \<Rightarrow>
   column option odict \<times> int" where
  "ModelTableMetaclass_new model opts_columns opts_exclude declared_columns counter =
     (case model of
        None \<Rightarrow> (map (\<lambda>(n, c). (n, Some c)) declared_columns, counter)
      | Some model_fields \<Rightarrow>
          (case columns_for_model model_fields opts_columns opts_exclude counter of
             (columns, counter') \<Rightarrow>
               (od_update columns (map (\<lambda>(n, c). (n, Some c)) declared_columns), counter')))"

text \<open>
The elements of a list in the order of their first occurrence.
\<close>

function first_occurrences :: "'a list \<Rightarrow> 'a list" where
  "first_occurrences [] = []"
| "first_occurrences (x # xs) = x # first_occurrences (removeAll x xs)"
  by pat_completeness auto
termination
  by (relation "measure length") (auto simp: less_Suc_eq_le length_removeAll_less_eq)

text \<open>
  Data for the examples: the fields of the model \<^verbatim>\<open>Country\<close> of the tests, and the two
  columns \<^verbatim>\<open>capital\<close> and \<^verbatim>\<open>projected\<close> that \<^verbatim>\<open>test_autogen_basic\<close> declares.
\<close>

definition country_fields :: "field list" where
  "country_fields =
     [\<lparr>f_name = ''id'', f_verbose_name = ''ID''\<rparr>,
      \<lparr>f_name = ''name'', f_verbose_name = ''name''\<rparr>,
      \<lparr>f_name = ''population'', f_verbose_name = ''population''\<rparr>,
      \<lparr>f_name = ''capital'', f_verbose_name = ''capital''\<rparr>,
      \<lparr>f_name = ''tld'', f_verbose_name = ''Domain Extension''\<rparr>,
      \<lparr>f_name = ''system'', f_verbose_name = ''system''\<rparr>,
      \<lparr>f_name = ''null'', f_verbose_name = ''null''\<rparr>,
      \<lparr>f_name = ''null2'', f_verbose_name = ''null2''\<rparr>]"

definition declared_column :: "string \<Rightarrow> int \<Rightarrow> column" where
  "declared_column v n =
     \<lparr> verbose_name = Some v, model_rel = None, default = PNone, visible = True,
       inaccessible = False, sortable = None, direction = ASC, creation_counter = n \<rparr>"

definition capital_projected :: "column odict" where
  "capital_projected =
     [(''capital'', declared_column ''Name of capital'' 0),
      (''projected'', declared_column ''Projected Population'' 1)]"

section \<open>models.py and base.py: validating an ordering\<close>

















section \<open>Direction tokens\<close>

lemma set_direction_cases:
  "set_direction (DirStr s) =
     (if s = ''asc'' then Inr ASC
      else if s = ''desc'' then Inr DESC
      else Inl (ValueError (''Invalid direction value: '' @ s)))"
  by simp

text \<open>
  C7, as the specification states it, fails: the token \<^verbatim>\<open>ASC\<close> is \<^verbatim>\<open>asc\<close> when case is
  ignored, and the setter rejects it.
\<close>

theorem direction_case_insensitive_counterexample:
  "accepted_ignoring_case ''ASC'' \<and>
   set_direction (DirStr ''ASC'') = Inl (ValueError ''Invalid direction value: ASC'')"
  by code_simp

text \<open>
  C7 (amended): at column construction a string direction token is accepted exactly when
  it is, letter for letter, \<^verbatim>\<open>asc\<close> or \<^verbatim>\<open>desc\<close>, which map to \<^verbatim>\<open>ASC\<close> and \<^verbatim>\<open>DESC\<close>; with any
  other string the construction raises \<^verbatim>\<open>ValueError\<close> and the creation counter is left as
  it was.
\<close>

theorem direction_token_exact:
  "Column_init (a\<lparr>arg_direction := DirStr s\<rparr>) n =
     (if s = ''asc'' \<or> s = ''desc''
      then (Inr \<lparr> verbose_name = arg_verbose_name a, model_rel = arg_model_rel a,
                  default = arg_default a, visible = arg_visible a,
                  inaccessible = arg_inaccessible a, sortable = arg_sortable a,
                  direction = (if s = ''asc'' then ASC else DESC),
                  creation_counter = n \<rparr>, n + 1)
      else (Inl (ValueError (''Invalid direction value: '' @ s)), n))"
  by (simp add: Column_init_def)

theorem direction_token_exact_witness:
  "direction (projr (fst (Column_init (default_args\<lparr>arg_direction := DirStr ''desc''\<rparr>) 0))) = DESC \<and>
   Column_init (default_args\<lparr>arg_direction := DirStr ''Desc''\<rparr>) 5 =
     (Inl (ValueError ''Invalid direction value: Desc''), 5)"
  using direction_token_exact [where a = default_args and s = "''desc''" and n = 0]
    direction_token_exact [where a = default_args and s = "''Desc''" and n = 5]
  by simp

section \<open>Creation order\<close>

lemma Column_init_counter:
  "Column_init a n = (Inr c, n') \<Longrightarrow> creation_counter c = n \<and> n' = n + 1"
  by (auto simp: Column_init_def split: sum.splits)

lemma Column_init_failure:
  "Column_init a n = (Inl e, n') \<Longrightarrow> n' = n"
  by (auto simp: Column_init_def split: sum.splits)

lemma construct_columns_bounds:
  "construct_columns as n = (cs, n') \<Longrightarrow>
     n \<le> n' \<and> (\<forall>c \<in> set cs. n \<le> creation_counter c \<and> creation_counter c < n')"
proof (induction as arbitrary: n cs n')
  case Nil
  then show ?case by simp
next
  case (Cons a as)
  obtain r m where init: "Column_init a n = (r, m)"
    by (cases "Column_init a n")
  obtain ds k where rest: "construct_columns as m = (ds, k)"
    by (cases "construct_columns as m")
  from Cons.IH [OF rest]
  have ih: "m \<le> k" "\<forall>c \<in> set ds. m \<le> creation_counter c \<and> creation_counter c < k"
    by simp_all
  show ?case
  proof (cases r)
    case (Inl e)
    with init have "m = n" by (simp add: Column_init_failure)
    with Cons.prems init rest Inl ih show ?thesis by auto
  next
    case (Inr c)
    with init have "creation_counter c = n" "m = n + 1"
      using Column_init_counter by blast+
    with Cons.prems init rest Inr ih show ?thesis by fastforce
  qed
qed

lemma construct_columns_increasing:
  "construct_columns as n = (cs, n') \<Longrightarrow>
     sorted_wrt (\<lambda>c d. creation_counter c < creation_counter d) cs"
proof (induction as arbitrary: n cs n')
  case Nil
  then show ?case by simp
next
  case (Cons a as)
  obtain r m where init: "Column_init a n = (r, m)"
    by (cases "Column_init a n")
  obtain ds k where rest: "construct_columns as m = (ds, k)"
    by (cases "construct_columns as m")
  note ih = Cons.IH [OF rest]
  note bounds = construct_columns_bounds [OF rest]
  show ?case
  proof (cases r)
    case (Inl e)
    with Cons.prems init rest ih show ?thesis by simp
  next
    case (Inr c)
    with init have "creation_counter c = n" "m = n + 1"
      using Column_init_counter by blast+
    with Cons.prems init rest Inr ih bounds show ?thesis by fastforce
  qed
qed

text \<open>
  C9: every newly constructed column gets a \<^verbatim>\<open>creation_counter\<close> strictly greater than
  that of every column constructed before it. For any sequence of constructions, from any
  value of the class counter: the counters of the columns are strictly increasing in the
  order of construction, and the class counter ends above all of them, so the next column
  is above them too.
\<close>

theorem creation_counter_strictly_increasing:
  "construct_columns as n = (cs, n') \<Longrightarrow>
     sorted_wrt (\<lambda>c d. creation_counter c < creation_counter d) cs \<and>
     (\<forall>c \<in> set cs. creation_counter c < n') \<and>
     (\<forall>c. fst (Column_init a n') = Inr c \<longrightarrow> creation_counter c = n')"
  using construct_columns_increasing [of as n cs n'] construct_columns_bounds [of as n cs n']
    Column_init_counter [of a n']
  by (metis prod.collapse)

theorem creation_counter_strictly_increasing_witness:
  "map creation_counter
     (fst (construct_columns
        [default_args, default_args\<lparr>arg_direction := DirStr ''up''\<rparr>,
         default_args\<lparr>arg_direction := DirStr ''desc''\<rparr>] 0)) = [0, 1] \<and>
   snd (construct_columns
        [default_args, default_args\<lparr>arg_direction := DirStr ''up''\<rparr>,
         default_args\<lparr>arg_direction := DirStr ''desc''\<rparr>] 0) = 2 \<and>
   sorted_wrt (\<lambda>c d. creation_counter c < creation_counter d)
     (fst (construct_columns
        [default_args, default_args\<lparr>arg_direction := DirStr ''up''\<rparr>,
         default_args\<lparr>arg_direction := DirStr ''desc''\<rparr>] 0))"
  using creation_counter_strictly_increasing
    [of "[default_args, default_args\<lparr>arg_direction := DirStr ''up''\<rparr>,
          default_args\<lparr>arg_direction := DirStr ''desc''\<rparr>]" 0
        "fst (construct_columns
           [default_args, default_args\<lparr>arg_direction := DirStr ''up''\<rparr>,
            default_args\<lparr>arg_direction := DirStr ''desc''\<rparr>] 0)"
        "snd (construct_columns
           [default_args, default_args\<lparr>arg_direction := DirStr ''up''\<rparr>,
            default_args\<lparr>arg_direction := DirStr ''desc''\<rparr>] 0)"
        default_args]
  by (simp add: Column_init_def default_args_def ASC_def DESC_def)

section \<open>Comparing values and rows\<close>

lemma cmp3_sym: "cmp3 b a = - cmp3 a b"
  by (auto simp: cmp3_def)

lemma cmp3_eq0: "cmp3 a b = 0 \<longleftrightarrow> a = b"
  by (auto simp: cmp3_def)

lemma cmp3_neg: "cmp3 a b < 0 \<longleftrightarrow> a < b"
  by (auto simp: cmp3_def)

lemma py_cmp_sym: "py_cmp b a = - py_cmp a b"
  by (cases a; cases b) (auto simp: cmp3_def)

lemma py_cmp_eq0: "py_cmp a b = 0 \<longleftrightarrow> a = b"
  by (cases a; cases b) (simp_all add: cmp3_eq0)

lemma py_cmp_trans: "py_cmp a b < 0 \<Longrightarrow> py_cmp b c < 0 \<Longrightarrow> py_cmp a c < 0"
  by (cases a; cases b; cases c) (auto simp: cmp3_neg)

lemma py_cmp_refl: "py_cmp a a = 0"
  by (simp add: py_cmp_eq0)

lemma cmp_rows_sym: "cmp_rows call ins y x = - cmp_rows call ins x y"
proof (induction ins)
  case Nil
  then show ?case by simp
next
  case (Cons i ins)
  obtain name reverse where i: "i = (name, reverse)" by (cases i)
  have "py_cmp (cell call y name) (cell call x name) = - py_cmp (cell call x name) (cell call y name)"
    by (rule py_cmp_sym)
  with Cons i show ?case by (simp add: Let_def)
qed

lemma cmp_rows_trans:
  "cmp_rows call ins x y \<le> 0 \<Longrightarrow> cmp_rows call ins y z \<le> 0 \<Longrightarrow> cmp_rows call ins x z \<le> 0"
proof (induction ins)
  case Nil
  then show ?case by simp
next
  case (Cons i ins)
  obtain name reverse where i: "i = (name, reverse)" by (cases i)
  let ?a = "cell call x name" and ?b = "cell call y name" and ?c = "cell call z name"
  show ?case
  proof (cases "py_cmp ?a ?b = 0")
    case True
    then have "?a = ?b" by (simp add: py_cmp_eq0)
    with Cons i show ?thesis by (auto simp: Let_def py_cmp_refl split: if_splits)
  next
    case ab: False
    show ?thesis
    proof (cases "py_cmp ?b ?c = 0")
      case True
      then have "?b = ?c" by (simp add: py_cmp_eq0)
      with Cons i ab show ?thesis by (auto simp: Let_def py_cmp_refl split: if_splits)
    next
      case bc: False
      show ?thesis
      proof (cases reverse)
        case True
        with Cons.prems i ab bc have "py_cmp ?c ?b < 0" "py_cmp ?b ?a < 0"
          using py_cmp_sym [of ?c ?b] py_cmp_sym [of ?b ?a] by (auto simp: Let_def)
        then have "py_cmp ?c ?a < 0" by (rule py_cmp_trans)
        with i True show ?thesis using py_cmp_sym [of ?c ?a] by (auto simp: Let_def)
      next
        case False
        with Cons.prems i ab bc have "py_cmp ?a ?b < 0" "py_cmp ?b ?c < 0"
          by (auto simp: Let_def)
        then have "py_cmp ?a ?c < 0" by (rule py_cmp_trans)
        with i False show ?thesis by (auto simp: Let_def)
      qed
    qed
  qed
qed

section \<open>Sorting with a comparison function\<close>

lemma mset_insort_cmp: "mset (insort_cmp c x xs) = add_mset x (mset xs)"
  by (induction xs) auto

lemma mset_list_sort: "mset (list_sort c xs) = mset xs"
  by (induction xs) (auto simp: list_sort_def mset_insort_cmp)

lemma set_insort_cmp: "set (insort_cmp c x xs) = insert x (set xs)"
  by (induction xs) auto

lemma sorted_insort_cmp:
  assumes "cmp_antisym c" "cmp_trans c"
  shows "sorted_wrt (\<lambda>a b. c a b \<le> 0) xs \<Longrightarrow> sorted_wrt (\<lambda>a b. c a b \<le> 0) (insort_cmp c x xs)"
proof (induction xs)
  case Nil
  then show ?case by simp
next
  case (Cons y ys)
  show ?case
  proof (cases "c x y \<le> 0")
    case True
    have "c x z \<le> 0" if "z \<in> set ys" for z
      using that Cons.prems True assms(2) unfolding cmp_trans_def by (metis sorted_wrt.simps(2))
    with True Cons.prems show ?thesis by auto
  next
    case False
    then have "c y x \<le> 0" using assms(1) unfolding cmp_antisym_def
      by (metis neg_0_le_iff_le linear)
    with False Cons show ?thesis by (auto simp: set_insort_cmp)
  qed
qed

lemma sorted_list_sort:
  assumes "cmp_antisym c" "cmp_trans c"
  shows "sorted_wrt (\<lambda>a b. c a b \<le> 0) (list_sort c xs)"
proof (induction xs)
  case Nil
  then show ?case by (simp add: list_sort_def)
next
  case (Cons x xs)
  then show ?case using sorted_insort_cmp [OF assms, of "list_sort c xs" x]
    by (simp add: list_sort_def)
qed

lemma cmp_equiv_trans:
  assumes "cmp_antisym c" "cmp_trans c" "c k x = 0" "c k y = 0"
  shows "c x y = 0"
proof -
  from assms(1,3) have "c x k = 0" unfolding cmp_antisym_def by (metis neg_equal_0_iff_equal)
  with assms(2,4) have 1: "c x y \<le> 0" unfolding cmp_trans_def by (metis order_refl)
  from assms(1,4) have "c y k = 0" unfolding cmp_antisym_def by (metis neg_equal_0_iff_equal)
  with assms(2,3) have "c y x \<le> 0" unfolding cmp_trans_def by (metis order_refl)
  then have "c x y \<ge> 0" using assms(1) unfolding cmp_antisym_def
    by (metis neg_0_le_iff_le minus_minus)
  with 1 show ?thesis by simp
qed

lemma stable_insort_cmp:
  assumes "cmp_antisym c" "cmp_trans c"
  shows "filter (\<lambda>y. c k y = 0) (insort_cmp c x xs) =
         (if c k x = 0 then x # filter (\<lambda>y. c k y = 0) xs else filter (\<lambda>y. c k y = 0) xs)"
proof (induction xs)
  case Nil
  then show ?case by simp
next
  case (Cons y ys)
  show ?case
  proof (cases "c x y \<le> 0")
    case True
    then show ?thesis by simp
  next
    case False
    then have "\<not> (c k x = 0 \<and> c k y = 0)"
      using cmp_equiv_trans [OF assms, of k x y] by auto
    with False Cons show ?thesis by auto
  qed
qed

lemma stable_list_sort:
  assumes "cmp_antisym c" "cmp_trans c"
  shows "filter (\<lambda>y. c k y = 0) (list_sort c xs) = filter (\<lambda>y. c k y = 0) xs"
  by (induction xs) (simp_all add: list_sort_def stable_insort_cmp [OF assms])


lemma strict_sorted_unique:
  assumes "sorted_wrt R xs" "sorted_wrt R ys" "mset xs = mset ys"
    and asym: "\<And>a b. R a b \<Longrightarrow> \<not> R b a"
  shows "xs = ys"
  using assms(1-3)
proof (induction xs arbitrary: ys)
  case Nil
  then show ?case by simp
next
  case (Cons x xs)
  then obtain y ys' where ys: "ys = y # ys'" by (cases ys) auto
  have "x = y"
  proof (rule ccontr)
    assume ne: "x \<noteq> y"
    have "x \<in> set ys" using Cons.prems(3) by (metis list.set_intros(1) set_mset_mset)
    with ne ys have "x \<in> set ys'" by simp
    with Cons.prems(2) ys have 1: "R y x" by simp
    have "y \<in> set (x # xs)" using Cons.prems(3) ys by (metis list.set_intros(1) set_mset_mset)
    with ne have "y \<in> set xs" by simp
    with Cons.prems(1) have "R x y" by simp
    with 1 asym show False by blast
  qed
  with Cons ys show ?case by simp
qed

lemma sorted_wrt_strict:
  assumes "sorted_wrt (\<lambda>a b. c a b \<le> (0::int)) xs" "distinct xs"
    and "\<And>a b. a \<in> set xs \<Longrightarrow> b \<in> set xs \<Longrightarrow> a \<noteq> b \<Longrightarrow> c a b \<noteq> 0"
  shows "sorted_wrt (\<lambda>a b. c a b < 0) xs"
  using assms by (induction xs) (auto simp: less_le)

lemma list_sort_reverse:
  assumes a: "cmp_antisym c" and t: "cmp_trans c"
    and d: "distinct xs"
    and ne: "\<And>a b. a \<in> set xs \<Longrightarrow> b \<in> set xs \<Longrightarrow> a \<noteq> b \<Longrightarrow> c a b \<noteq> 0"
  shows "list_sort (\<lambda>x y. - c x y) xs = rev (list_sort c xs)"
proof -
  let ?c' = "\<lambda>x y. - c x y"
  let ?R = "\<lambda>a b. c b a < 0"
  have sym: "c y x = - c x y" for x y
    using a unfolding cmp_antisym_def by blast
  have a': "cmp_antisym ?c'"
    unfolding cmp_antisym_def
  proof (intro allI)
    fix x y show "- c y x = - (- c x y)" using sym [of x y] by linarith
  qed
  have t': "cmp_trans ?c'" unfolding cmp_trans_def
  proof (intro allI impI)
    fix x y z assume "- c x y \<le> 0 \<and> - c y z \<le> 0"
    then have "c y x \<le> 0" "c z y \<le> 0" using sym [of x y] sym [of y z] by linarith+
    then have "c z x \<le> 0" using t unfolding cmp_trans_def by blast
    then show "- c x z \<le> 0" using sym [of x z] by linarith
  qed
  have m1: "mset (list_sort ?c' xs) = mset xs" by (rule mset_list_sort)
  have m2: "mset (list_sort c xs) = mset xs" by (rule mset_list_sort)
  have d1: "distinct (list_sort ?c' xs)" using d m1 by (metis mset_eq_imp_distinct_iff)
  have d2: "distinct (list_sort c xs)" using d m2 by (metis mset_eq_imp_distinct_iff)
  have s1: "set (list_sort ?c' xs) = set xs" using m1 by (metis set_mset_mset)
  have s2: "set (list_sort c xs) = set xs" using m2 by (metis set_mset_mset)
  have ne': "- c a b \<noteq> 0" if "a \<in> set xs" "b \<in> set xs" "a \<noteq> b" for a b
    using ne [OF that] by simp
  have "sorted_wrt (\<lambda>a b. - c a b < 0) (list_sort ?c' xs)"
  proof (rule sorted_wrt_strict)
    show "sorted_wrt (\<lambda>a b. - c a b \<le> 0) (list_sort ?c' xs)"
      by (rule sorted_list_sort [OF a' t'])
    show "distinct (list_sort ?c' xs)" by (rule d1)
    show "- c a b \<noteq> 0"
      if "a \<in> set (list_sort ?c' xs)" "b \<in> set (list_sort ?c' xs)" "a \<noteq> b" for a b
      using that ne' s1 by blast
  qed
  moreover have "(- c a b < 0) = (c b a < 0)" for a b
    using sym [of a b] by linarith
  ultimately have 1: "sorted_wrt ?R (list_sort ?c' xs)"
    by simp
  have "sorted_wrt (\<lambda>a b. c a b < 0) (list_sort c xs)"
  proof (rule sorted_wrt_strict)
    show "sorted_wrt (\<lambda>a b. c a b \<le> 0) (list_sort c xs)"
      by (rule sorted_list_sort [OF a t])
    show "distinct (list_sort c xs)" by (rule d2)
    show "c a b \<noteq> 0"
      if "a \<in> set (list_sort c xs)" "b \<in> set (list_sort c xs)" "a \<noteq> b" for a b
      using that ne s2 by blast
  qed
  then have 2: "sorted_wrt ?R (rev (list_sort c xs))"
    by (simp add: sorted_wrt_rev)
  have asym: "\<not> ?R b a" if "?R a b" for a b
    using that sym [of a b] by linarith
  have ms: "mset (list_sort ?c' xs) = mset (rev (list_sort c xs))"
    using m1 m2 by simp
  show ?thesis
    using 1 2 ms by (rule strict_sorted_unique [of ?R]) (rule asym)
qed

section \<open>Filling in defaults\<close>

lemma fill_defaults_row:
  "fill_defaults gd s cols h = h(s := fill_row gd cols (h s))"
  by (induction cols arbitrary: h) auto

lemma fold_fill_defaults:
  "fold (\<lambda>s. fill_defaults gd s cols) data h r =
     (fill_row gd cols ^^ count_list data r) (h r)"
proof (induction data arbitrary: h)
  case Nil
  then show ?case by simp
next
  case (Cons s data)
  let ?F = "\<lambda>s. fill_defaults gd s cols"
  have "fold ?F (s # data) h r = fold ?F data (fill_defaults gd s cols h) r"
    by simp
  also have "\<dots> = (fill_row gd cols ^^ count_list data r) (fill_defaults gd s cols h r)"
    by (rule Cons.IH)
  also have "\<dots> = (fill_row gd cols ^^ count_list (s # data) r) (h r)"
    by (simp add: fill_defaults_row funpow_swap1)
  finally show ?case .
qed

lemma fill_row_keeps_keys: "r k \<noteq> None \<Longrightarrow> fill_row gd cols r k \<noteq> None"
  by (induction cols arbitrary: r) auto

lemma dict_get_present: "dict_get r k \<noteq> PNone \<Longrightarrow> r k \<noteq> None"
  by (auto simp: dict_get_def split: option.splits)

lemma fill_row_has_keys: "c \<in> set cols \<Longrightarrow> fill_row gd cols r (src_accessor c) \<noteq> None"
proof (induction cols arbitrary: r)
  case Nil
  then show ?case by simp
next
  case (Cons d cols)
  show ?case
  proof (cases "c = d")
    case True
    let ?r' = "if dict_get r (src_accessor d) = PNone
               then r(src_accessor d \<mapsto> gd d r) else r"
    have "?r' (src_accessor d) \<noteq> None"
      using dict_get_present [of r "src_accessor d"] by auto
    then have "fill_row gd cols ?r' (src_accessor d) \<noteq> None"
      by (rule fill_row_keeps_keys)
    with True show ?thesis by simp
  next
    case False
    with Cons show ?thesis by auto
  qed
qed

lemma funpow_fill_row_has_keys:
  "c \<in> set cols \<Longrightarrow> 0 < n \<Longrightarrow> (fill_row gd cols ^^ n) r (src_accessor c) \<noteq> None"
  by (cases n) (auto simp: fill_row_has_keys)


section \<open>The sort of a snapshot\<close>

lemma cmp_rows_heap_antisym:
  "cmp_antisym (\<lambda>x y. cmp_rows call ins (h x) (h y))"
  unfolding cmp_antisym_def by (intro allI) (rule cmp_rows_sym)

lemma cmp_rows_heap_trans:
  "cmp_trans (\<lambda>x y. cmp_rows call ins (h x) (h y))"
  unfolding cmp_trans_def using cmp_rows_trans by blast

lemma cell_compared_value: "cell call x k = compared_value call x k"
  by (simp add: cell_def dict_get_def compared_value_def split: option.splits pyval.splits)

lemma cmp_rows_first_decides:
  "cmp_rows call ins x y =
     (case find (\<lambda>i. key_cmp call i x y \<noteq> 0) ins of
        None \<Rightarrow> 0 | Some i \<Rightarrow> key_cmp call i x y)"
proof (induction ins)
  case Nil
  then show ?case by simp
next
  case (Cons i ins)
  obtain name reverse where i: "i = (name, reverse)" by (cases i)
  with Cons show ?case by (simp add: key_cmp_def cell_compared_value Let_def)
qed

lemma instructions_descending:
  "instructions ((CHR ''-'' # n) # os) = (n, True) # instructions os"
  by simp

lemma instructions_ascending:
  "o' = [] \<or> hd o' \<noteq> CHR ''-'' \<Longrightarrow> instructions (o' # os) = (o', False) # instructions os"
  by (cases o') auto

lemma mset_sort_table: "mset (sort_table call h data order_by) = mset data"
  by (simp add: sort_table_def mset_list_sort)

lemma sorted_sort_table:
  "sorted_wrt (\<lambda>x y. cmp_rows call (instructions order_by) (h x) (h y) \<le> 0)
     (sort_table call h data order_by)"
  unfolding sort_table_def
  by (rule sorted_list_sort [OF cmp_rows_heap_antisym cmp_rows_heap_trans])

lemma stable_sort_table:
  "filter (\<lambda>y. cmp_rows call (instructions order_by) (h k) (h y) = 0)
     (sort_table call h data order_by) =
   filter (\<lambda>y. cmp_rows call (instructions order_by) (h k) (h y) = 0) data"
  unfolding sort_table_def
  by (rule stable_list_sort [OF cmp_rows_heap_antisym cmp_rows_heap_trans])

text \<open>
  C2: the in-memory sort of a snapshot is a stable multi-key sort. When an ordering is set,
  a build first fills the defaults into every row and then sorts the list of rows as they
  are after that, so the defaults take part in the comparison. The result is a permutation
  of the rows, sorted by \<^verbatim>\<open>_cmp\<close>, and rows that compare equal keep their relative order.
  \<^verbatim>\<open>_cmp\<close> takes the keys in the listed order and the first key whose compared values
  differ decides, inverted for a key whose token starts with a hyphen. The compared value
  of a row for a key is the value the row holds, and where that value is a callable it is
  what the callable returns when it is called with the row.
\<close>

theorem snapshot_sort_stable_multi_key:
  assumes "order_by \<noteq> []"
    and "build_snapshot call get_default rsd c2s columns order_by data h = (snapshot, h')"
  shows "h' = fold (\<lambda>src_row. fill_defaults get_default src_row columns) data h \<and>
     snapshot = sort_table call h' data (c2s (rsd order_by)) \<and>
     mset snapshot = mset data \<and>
     sorted_wrt (\<lambda>x y. cmp_rows call (instructions (c2s (rsd order_by))) (h' x) (h' y) \<le> 0)
       snapshot \<and>
     (\<forall>k. filter (\<lambda>y. cmp_rows call (instructions (c2s (rsd order_by))) (h' k) (h' y) = 0)
             snapshot =
          filter (\<lambda>y. cmp_rows call (instructions (c2s (rsd order_by))) (h' k) (h' y) = 0)
             data) \<and>
     (\<forall>ins x y. cmp_rows call ins x y =
        (case find (\<lambda>i. key_cmp call i x y \<noteq> 0) ins of
           None \<Rightarrow> 0 | Some i \<Rightarrow> key_cmp call i x y)) \<and>
     (\<forall>k rev' x y f g. x k = Some (PCallable f) \<and> y k = Some (PCallable g) \<longrightarrow>
        cmp_rows call [(k, rev')] x y =
          (if rev' then - py_cmp (call f x) (call g y) else py_cmp (call f x) (call g y))) \<and>
     (\<forall>n os. instructions ((CHR ''-'' # n) # os) = (n, True) # instructions os) \<and>
     (\<forall>o' os. o' = [] \<or> hd o' \<noteq> CHR ''-'' \<longrightarrow>
        instructions (o' # os) = (o', False) # instructions os)"
proof -
  from assms have h': "h' = fold (\<lambda>src_row. fill_defaults get_default src_row columns) data h"
    and s: "snapshot = sort_table call h' data (c2s (rsd order_by))"
    by (auto simp: build_snapshot_def Let_def)
  have 1: "mset snapshot = mset data"
    unfolding s by (rule mset_sort_table)
  have 2: "sorted_wrt (\<lambda>x y. cmp_rows call (instructions (c2s (rsd order_by))) (h' x) (h' y) \<le> 0)
       snapshot"
    unfolding s by (rule sorted_sort_table)
  have 3: "filter (\<lambda>y. cmp_rows call (instructions (c2s (rsd order_by))) (h' k) (h' y) = 0)
             snapshot =
          filter (\<lambda>y. cmp_rows call (instructions (c2s (rsd order_by))) (h' k) (h' y) = 0)
             data" for k
    unfolding s by (rule stable_sort_table)
  have 4: "cmp_rows call [(k, rev')] x y =
          (if rev' then - py_cmp (call f x) (call g y) else py_cmp (call f x) (call g y))"
    if "x k = Some (PCallable f) \<and> y k = Some (PCallable g)" for k rev' x y f g
    using that by (auto simp: cell_def dict_get_def Let_def)
  show ?thesis
    using h' s 1 2 3 4 cmp_rows_first_decides instructions_descending instructions_ascending
    by blast
qed

theorem snapshot_sort_stable_multi_key_witness:
  "[''system'', ''-population''] \<noteq> [] \<and>
   fst (build_snapshot no_calls literal_default id id example_columns
          [''system'', ''-population''] [0, 1, 2, 3] example_heap) = [3, 2, 0, 1] \<and>
   mset (fst (build_snapshot no_calls literal_default id id example_columns
          [''system'', ''-population''] [0, 1, 2, 3] example_heap)) = mset [0, 1, 2, 3] \<and>
   snd (build_snapshot no_calls literal_default id id example_columns
          [''system'', ''-population''] [0, 1, 2, 3] example_heap) 0 ''system'' =
     Some (PStr ''republic'') \<and>
   fst (build_snapshot negated_population literal_default id id example_columns
          [''rank''] [0, 1, 2, 3] callable_heap) = [3, 2, 0, 1] \<and>
   cmp_rows negated_population [(''rank'', False)] (callable_heap 0) (callable_heap 1) = - 1"
proof -
  let ?r = "build_snapshot no_calls literal_default id id example_columns
          [''system'', ''-population''] [0, 1, 2, 3] example_heap"
  have ne: "[''system'', ''-population''] \<noteq> []" by simp
  have c: "?r = (fst ?r, snd ?r)" by simp
  note t = snapshot_sort_stable_multi_key [OF ne c]
  have "mset (fst ?r) = mset [0, 1, 2, 3]"
    by (rule t [THEN conjunct2, THEN conjunct2, THEN conjunct1])
  moreover have "fst ?r = [3, 2, 0, 1]" by code_simp
  moreover have "snd ?r 0 ''system'' = Some (PStr ''republic'')" by code_simp
  moreover have "fst (build_snapshot negated_population literal_default id id example_columns
          [''rank''] [0, 1, 2, 3] callable_heap) = [3, 2, 0, 1]"
    by code_simp
  moreover have "cmp_rows negated_population [(''rank'', False)] (callable_heap 0)
      (callable_heap 1) = - 1"
  proof -
    let ?r2 = "build_snapshot negated_population literal_default id id example_columns
          [''rank''] [0, 1, 2, 3] callable_heap"
    have ne2: "[''rank''] \<noteq> []" by simp
    have c2: "?r2 = (fst ?r2, snd ?r2)" by simp
    note t2 = snapshot_sort_stable_multi_key [OF ne2 c2]
    have q: "\<forall>k rev' x y f g. x k = Some (PCallable f) \<and> y k = Some (PCallable g) \<longrightarrow>
        cmp_rows negated_population [(k, rev')] x y =
          (if rev' then - py_cmp (negated_population f x) (negated_population g y)
           else py_cmp (negated_population f x) (negated_population g y))"
      by (rule t2 [THEN conjunct2, THEN conjunct2, THEN conjunct2, THEN conjunct2,
            THEN conjunct2, THEN conjunct2, THEN conjunct1])
    have k: "callable_heap 0 ''rank'' = Some (PCallable 0) \<and>
        callable_heap 1 ''rank'' = Some (PCallable 0)"
      by (simp add: callable_heap_def)
    have v: "py_cmp (negated_population 0 (callable_heap 0))
        (negated_population 0 (callable_heap 1)) = - 1"
      by code_simp
    from q have "callable_heap 0 ''rank'' = Some (PCallable 0) \<and>
        callable_heap 1 ''rank'' = Some (PCallable 0) \<longrightarrow>
        cmp_rows negated_population [(''rank'', False)] (callable_heap 0) (callable_heap 1) =
          (if False
           then - py_cmp (negated_population 0 (callable_heap 0))
                  (negated_population 0 (callable_heap 1))
           else py_cmp (negated_population 0 (callable_heap 0))
                  (negated_population 0 (callable_heap 1)))"
      by (elim allE)
    with k v show ?thesis by simp
  qed
  ultimately show ?thesis using ne by blast
qed


section \<open>Descending and ascending order\<close>

text \<open>
  C8, as the specification states it, fails when two rows tie: the stable sort keeps tied
  rows in their original order in both directions, so the descending result is not the
  reverse of the ascending one. Rows 0 and 2 of the example both have no \<^verbatim>\<open>system\<close>.
\<close>

theorem descending_sort_tie_counterexample:
  "cell no_calls (example_heap 0) ''system'' = cell no_calls (example_heap 2) ''system'' \<and>
   sort_table no_calls example_heap [0, 2] [''-system''] = [0, 2] \<and>
   rev (sort_table no_calls example_heap [0, 2] [''system'']) = [2, 0] \<and>
   sort_table no_calls example_heap [0, 2] [''-system''] \<noteq>
     rev (sort_table no_calls example_heap [0, 2] [''system''])"
  by code_simp

text \<open>
  C8 (amended): for a snapshot in which no two rows have equal values under the key,
  sorting by the descending form of the key gives the exact reverse of sorting by its
  ascending form.
\<close>

theorem descending_sort_reverses_without_ties:
  assumes asc: "k = [] \<or> hd k \<noteq> CHR ''-''"
    and d: "distinct data"
    and ne: "\<forall>x \<in> set data. \<forall>y \<in> set data. x \<noteq> y \<longrightarrow> cell call (h x) k \<noteq> cell call (h y) k"
  shows "sort_table call h data [CHR ''-'' # k] = rev (sort_table call h data [k])"
proof -
  let ?c = "\<lambda>x y. cmp_rows call [(k, False)] (h x) (h y)"
  have i1: "instructions [CHR ''-'' # k] = [(k, True)]" by simp
  have i2: "instructions [k] = [(k, False)]"
    using instructions_ascending [OF asc, of "[]"] by simp
  have desc: "(\<lambda>x y. cmp_rows call [(k, True)] (h x) (h y)) = (\<lambda>x y. - ?c x y)"
    by (intro ext) (auto simp: Let_def)
  have "list_sort (\<lambda>x y. - ?c x y) data = rev (list_sort ?c data)"
  proof (rule list_sort_reverse)
    show "cmp_antisym ?c" by (rule cmp_rows_heap_antisym)
    show "cmp_trans ?c" by (rule cmp_rows_heap_trans)
    show "distinct data" by (rule d)
    show "?c a b \<noteq> 0" if "a \<in> set data" "b \<in> set data" "a \<noteq> b" for a b
      using that ne by (auto simp: Let_def py_cmp_eq0)
  qed
  then show ?thesis
    by (simp only: sort_table_def i1 i2 desc)
qed

theorem descending_sort_reverses_without_ties_witness:
  "(''population'' = [] \<or> hd ''population'' \<noteq> CHR ''-'') \<and>
   distinct [0, 1, 2, 3 :: nat] \<and>
   sort_table no_calls example_heap [0, 1, 2, 3] [''-population''] = [3, 2, 0, 1] \<and>
   sort_table no_calls example_heap [0, 1, 2, 3] [''-population''] =
     rev (sort_table no_calls example_heap [0, 1, 2, 3] [''population''])"
proof -
  have asc: "''population'' = [] \<or> hd ''population'' \<noteq> CHR ''-''" by simp
  have d: "distinct [0, 1, 2, 3 :: nat]" by simp
  have ne: "\<forall>x \<in> set [0, 1, 2, 3]. \<forall>y \<in> set [0, 1, 2, 3]. x \<noteq> y \<longrightarrow>
      cell no_calls (example_heap x) ''population'' \<noteq> cell no_calls (example_heap y) ''population''"
    by code_simp
  have "sort_table no_calls example_heap [0, 1, 2, 3] [''-population''] = [3, 2, 0, 1]"
    by code_simp
  with asc d descending_sort_reverses_without_ties [OF asc d ne] show ?thesis
    by blast
qed

section \<open>The effect of a build on the source rows\<close>

text \<open>
  C10: the snapshot is a shallow copy, a list of the same references, and the defaults are
  written into the rows those references point to, which are the caller's rows. After a
  build the row at each reference of the source list has been run through the default
  loop once per occurrence of the reference in the list, so every row of the source holds
  a value (possibly \<^verbatim>\<open>None\<close>) under the \<^verbatim>\<open>src_accessor\<close> of every column, and rows that
  are not in the list are untouched.
\<close>

theorem build_snapshot_fills_source_rows:
  assumes "build_snapshot call get_default rsd c2s columns order_by data h = (snapshot, h')"
  shows "mset snapshot = mset data \<and>
     (\<forall>r. h' r = (fill_row get_default columns ^^ count_list data r) (h r)) \<and>
     (\<forall>r \<in> set data. \<forall>c \<in> set columns. h' r (src_accessor c) \<noteq> None) \<and>
     (\<forall>r. r \<notin> set data \<longrightarrow> h' r = h r)"
proof -
  from assms have h': "h' = fold (\<lambda>src_row. fill_defaults get_default src_row columns) data h"
    by (auto simp: build_snapshot_def Let_def split: if_splits)
  from assms have 1: "mset snapshot = mset data"
    by (auto simp: build_snapshot_def Let_def mset_sort_table split: if_splits)
  have 2: "h' r = (fill_row get_default columns ^^ count_list data r) (h r)" for r
    unfolding h' by (rule fold_fill_defaults)
  have 3: "h' r (src_accessor c) \<noteq> None" if "r \<in> set data" "c \<in> set columns" for r c
  proof -
    from that(1) have "0 < count_list data r"
      by (induction data) auto
    with that(2) show ?thesis
      unfolding 2 by (rule funpow_fill_row_has_keys)
  qed
  have 4: "h' r = h r" if "r \<notin> set data" for r
  proof -
    from that have "count_list data r = 0" by (induction data) auto
    then show ?thesis by (simp add: 2)
  qed
  from 1 2 3 4 show ?thesis by blast
qed

theorem build_snapshot_fills_source_rows_witness:
  "example_heap 0 ''system'' = None \<and>
   snd (build_snapshot no_calls literal_default id id example_columns [] [0, 1, 2, 3]
          example_heap) 0 ''system'' = Some (PStr ''republic'') \<and>
   fst (build_snapshot no_calls literal_default id id example_columns [] [0, 1, 2, 3]
          example_heap) = [0, 1, 2, 3] \<and>
   snd (build_snapshot no_calls literal_default id id example_columns [] [0, 1, 2, 3]
          example_heap) 2 (src_accessor (example_column ''system'' (PStr ''republic''))) \<noteq> None"
proof -
  let ?r = "build_snapshot no_calls literal_default id id example_columns [] [0, 1, 2, 3]
          example_heap"
  have c: "?r = (fst ?r, snd ?r)" by simp
  note t = build_snapshot_fills_source_rows [OF c]
  have "\<forall>r \<in> set [0, 1, 2, 3]. \<forall>c \<in> set example_columns. snd ?r r (src_accessor c) \<noteq> None"
    by (rule t [THEN conjunct2, THEN conjunct2, THEN conjunct1])
  then have "snd ?r 2 (src_accessor (example_column ''system'' (PStr ''republic''))) \<noteq> None"
    by (simp add: example_columns_def)
  moreover have "example_heap 0 ''system'' = None" by code_simp
  moreover have "snd ?r 0 ''system'' = Some (PStr ''republic'')" by code_simp
  moreover have "fst ?r = [0, 1, 2, 3]" by code_simp
  ultimately show ?thesis by blast
qed

section \<open>Resolving an accessor path\<close>

lemma resolve_bits_append:
  "resolve_bits acc pre data = Inr cur \<Longrightarrow> cur \<noteq> ONone \<Longrightarrow>
     resolve_bits acc (pre @ post) data = resolve_bits acc post cur"
proof (induction pre arbitrary: data)
  case Nil
  then show ?case by simp
next
  case (Cons b pre)
  then show ?case
    by (auto simp: Let_def split: option.splits if_splits)
qed

text \<open>
  C1: the segments of the accessor are resolved in order. Let the traversal of the
  segments before \<open>b\<close> end on an object \<open>cur\<close> that is not \<^verbatim>\<open>None\<close>. If \<open>cur\<close> has no attribute
  \<open>b\<close>, the resolution raises the error (a \<^verbatim>\<open>ValueError\<close>) that names \<open>b\<close> and the whole
  accessor. If the attribute exists and its value, called when it is callable, is \<^verbatim>\<open>None\<close>,
  the traversal stops there, whatever segments follow, and nothing is raised: the result is
  \<^verbatim>\<open>None\<close> for a column without a default and the default otherwise. If the value is not
  \<^verbatim>\<open>None\<close>, the traversal goes on from it with the segments that follow. The result is a
  function of the record, the column and the defaults, so repeated calls agree.
\<close>

theorem accessor_resolution:
  assumes bits: "split_dunder [] (src_accessor bc) = pre @ b # post"
    and pre: "resolve_bits (src_accessor bc) pre data = Inr cur"
    and cur: "cur \<noteq> ONone"
  shows "(get_attr cur b = None \<longrightarrow>
            default_render gd bc data =
              Inl (ValueError (''Could not resolve '' @ b @ '' from '' @ src_accessor bc))) \<and>
         (\<forall>v. get_attr cur b = Some v \<and> call_if_callable v = ONone \<longrightarrow>
            default_render gd bc data =
              (if default (bc_column bc) = PNone then Inr ONone else Inr (gd bc data))) \<and>
         (\<forall>v. get_attr cur b = Some v \<and> call_if_callable v \<noteq> ONone \<longrightarrow>
            default_render gd bc data =
              (case resolve_bits (src_accessor bc) post (call_if_callable v) of
                 Inl e \<Rightarrow> Inl e
               | Inr r \<Rightarrow> if r = ONone \<and> default (bc_column bc) \<noteq> PNone
                          then Inr (gd bc data) else Inr r))"
proof -
  have "resolve_bits (src_accessor bc) (split_dunder [] (src_accessor bc)) data =
        resolve_bits (src_accessor bc) (b # post) cur"
    unfolding bits by (rule resolve_bits_append [OF pre cur])
  then show ?thesis
    by (auto simp: default_render_def Let_def)
qed

theorem accessor_resolution_witness:
  "default_render no_default (model_column ''cap'' ''capital__invalid'' PNone) germany =
     Inl (ValueError ''Could not resolve invalid from capital__invalid'') \<and>
   default_render no_default (model_column ''cap'' ''capital__name'' PNone) austria = Inr ONone \<and>
   default_render no_default (model_column ''cap'' ''capital__name'' PNone) germany =
     Inr (OStr ''Berlin'')"
proof -
  let ?inv = "model_column ''cap'' ''capital__invalid'' PNone"
  let ?nam = "model_column ''cap'' ''capital__name'' PNone"
  have 1: "split_dunder [] (src_accessor ?inv) = [''capital''] @ ''invalid'' # []"
    by (simp add: model_column_def)
  have 2: "resolve_bits (src_accessor ?inv) [''capital''] germany = Inr berlin"
    by (simp add: model_column_def germany_def berlin_def)
  have 3: "berlin \<noteq> ONone" by (simp add: berlin_def)
  have 4: "get_attr berlin ''invalid'' = None" by (simp add: berlin_def)
  have a: "default_render no_default ?inv germany =
      Inl (ValueError (''Could not resolve '' @ ''invalid'' @ '' from '' @ src_accessor ?inv))"
    using accessor_resolution [OF 1 2 3, of no_default] 4 by blast
  have 5: "split_dunder [] (src_accessor ?nam) = [] @ ''capital'' # [''name'']"
    by (simp add: model_column_def)
  have 6: "resolve_bits (src_accessor ?nam) [] austria = Inr austria" by simp
  have 7: "austria \<noteq> ONone" by (simp add: austria_def)
  have 8: "get_attr austria ''capital'' = Some ONone \<and> call_if_callable ONone = ONone"
    by (simp add: austria_def)
  have 9: "default (bc_column ?nam) = PNone"
    by (simp add: model_column_def example_column_def)
  have b: "default_render no_default ?nam austria = Inr ONone"
    using accessor_resolution [OF 5 6 7, of no_default] 8 9 by simp
  have c: "default_render no_default ?nam germany = Inr (OStr ''Berlin'')"
    by code_simp
  from a b c show ?thesis by (simp add: model_column_def)
qed

section \<open>Ordered dictionaries\<close>

lemma Column_init_default_args:
  "Column_init (default_args\<lparr>arg_verbose_name := v\<rparr>) n =
     (Inr \<lparr> verbose_name = v, model_rel = None, default = PNone, visible = True,
            inaccessible = False, sortable = None, direction = ASC, creation_counter = n \<rparr>,
      n + 1)"
  by (simp add: Column_init_def default_args_def)

lemma field_list_loop_names:
  "map fst (fst (field_list_loop fs cols ex n)) =
     filter (\<lambda>k. \<not> ((cols \<noteq> [] \<and> k \<notin> set cols) \<or> (ex \<noteq> [] \<and> k \<in> set ex))) (map f_name fs)"
proof (induction fs arbitrary: n)
  case Nil
  then show ?case by simp
next
  case (Cons f fs)
  show ?case
    using Cons.IH [of n] Cons.IH [of "n + 1"]
    by (auto simp: Column_init_default_args split: prod.splits)
qed

lemma od_set_keys:
  "map fst (od_set k v d) = (if k \<in> set (map fst d) then map fst d else map fst d @ [k])"
  by (induction d) force+

lemma map_of_od_set: "map_of (od_set k v d) = (map_of d)(k \<mapsto> v)"
  by (induction d) (auto simp: fun_eq_iff)

lemma set_first_occurrences: "set (first_occurrences xs) = set xs"
  by (induction xs rule: first_occurrences.induct) auto

lemma distinct_first_occurrences: "distinct (first_occurrences xs)"
  by (induction xs rule: first_occurrences.induct) (auto simp: set_first_occurrences)

lemma first_occurrences_distinct: "distinct xs \<Longrightarrow> first_occurrences xs = xs"
  by (induction xs) auto

lemma removeAll_filter: "removeAll k (filter P xs) = filter (\<lambda>x. P x \<and> x \<noteq> k) xs"
  by (induction xs) auto

lemma od_update_keys:
  "map fst (od_update d kvs) =
     map fst d @ first_occurrences (filter (\<lambda>k. k \<notin> set (map fst d)) (map fst kvs))"
proof (induction kvs arbitrary: d)
  case Nil
  then show ?case by (simp add: od_update_def)
next
  case (Cons kv kvs)
  obtain k v where kv: "kv = (k, v)" by (cases kv)
  have step: "od_update d (kv # kvs) = od_update (od_set k v d) kvs"
    by (simp add: od_update_def kv)
  show ?case
  proof (cases "k \<in> set (map fst d)")
    case True
    then show ?thesis
      unfolding step Cons.IH by (simp add: od_set_keys kv)
  next
    case False
    have "removeAll k (filter (\<lambda>k. k \<notin> set (map fst d)) (map fst kvs)) =
          filter (\<lambda>x. x \<notin> set (map fst d) \<and> x \<noteq> k) (map fst kvs)"
      by (rule removeAll_filter)
    moreover have "(\<lambda>x. x \<notin> set (map fst (od_set k v d))) = (\<lambda>x. x \<notin> set (map fst d) \<and> x \<noteq> k)"
      using False by (auto simp: od_set_keys)
    ultimately show ?thesis
      unfolding step Cons.IH using False by (simp add: od_set_keys kv)
  qed
qed

lemma map_of_od_update: "map_of (od_update d kvs) = map_of d ++ map_of (rev kvs)"
proof (induction kvs arbitrary: d)
  case Nil
  then show ?case by (simp add: od_update_def)
next
  case (Cons kv kvs)
  obtain k v where kv: "kv = (k, v)" by (cases kv)
  have step: "od_update d (kv # kvs) = od_update (od_set k v d) kvs"
    by (simp add: od_update_def kv)
  show ?case
    unfolding step Cons.IH
    by (auto simp: map_of_od_set kv fun_eq_iff map_add_def split: option.splits)
qed

lemma OrderedDict_keys: "map fst (OrderedDict kvs) = first_occurrences (map fst kvs)"
  by (simp add: OrderedDict_def od_update_keys)

lemma map_of_OrderedDict: "map_of (OrderedDict kvs) = map_of (rev kvs)"
  by (simp add: OrderedDict_def map_of_od_update)

lemma map_of_rev_distinct: "distinct (map fst kvs) \<Longrightarrow> map_of (rev kvs) = map_of kvs"
proof (induction kvs)
  case Nil
  then show ?case by simp
next
  case (Cons kv kvs)
  obtain k v where kv: "kv = (k, v)" by (cases kv)
  from Cons.prems kv have "map_of kvs k = None"
    by (simp add: map_of_eq_None_iff)
  with Cons kv show ?case
    by (auto simp: fun_eq_iff map_add_def split: option.splits)
qed

lemma map_of_rev_graph:
  "map_of (rev (map (\<lambda>c. (c, g c)) xs)) k = (if k \<in> set xs then Some (g k) else None)"
  by (induction xs) (auto simp: map_add_def split: option.splits)

lemma map_of_rev_Some_columns:
  "k \<in> fst ` set fl \<Longrightarrow> \<exists>c. map_of (rev (map (\<lambda>(n, c). (n, Some c)) fl)) k = Some (Some c)"
proof -
  assume k: "k \<in> fst ` set fl"
  let ?kvs = "rev (map (\<lambda>(n, c). (n, Some c)) fl)"
  from k have "k \<in> fst ` set ?kvs" by force
  then obtain v where v: "map_of ?kvs k = Some v"
    by (metis map_of_eq_None_iff not_Some_eq)
  then have "(k, v) \<in> set ?kvs" by (rule map_of_SomeD)
  then obtain c where "v = Some c" by auto
  with v show ?thesis by blast
qed

section \<open>The columns of a model table\<close>

lemma exclude_filter:
  "filter (\<lambda>c. exclude = [] \<or> (exclude \<noteq> [] \<and> c \<notin> set exclude)) xs =
   filter (\<lambda>c. c \<notin> set exclude) xs"
  by (rule filter_cong) auto

lemma columns_for_model_keys:
  "map fst (fst (columns_for_model mf columns exclude counter)) =
     first_occurrences
       (filter (\<lambda>c. c \<notin> set exclude) (if columns \<noteq> [] then columns else map f_name mf))"
proof -
  obtain fl n' where loop: "field_list_loop mf columns exclude counter = (fl, n')"
    by (cases "field_list_loop mf columns exclude counter")
  have names: "map fst fl =
      filter (\<lambda>k. \<not> ((columns \<noteq> [] \<and> k \<notin> set columns) \<or> (exclude \<noteq> [] \<and> k \<in> set exclude)))
        (map f_name mf)"
    using field_list_loop_names [of mf columns exclude counter] loop by simp
  have fst_map: "map fst (map (\<lambda>(n, c). (n, Some c)) fl) = map fst fl"
    by (induction fl) auto
  show ?thesis
  proof (cases "columns = []")
    case True
    have "filter (\<lambda>k. \<not> (exclude \<noteq> [] \<and> k \<in> set exclude)) (map f_name mf) =
          filter (\<lambda>c. c \<notin> set exclude) (map f_name mf)"
      by (rule filter_cong) auto
    with True names loop fst_map show ?thesis
      by (simp add: columns_for_model_def OrderedDict_keys)
  next
    case False
    with loop show ?thesis
      by (simp add: columns_for_model_def OrderedDict_keys exclude_filter comp_def)
  qed
qed

lemma columns_for_model_lookup:
  assumes "columns \<noteq> []" "k \<in> set columns" "k \<notin> set exclude" "k \<in> f_name ` set mf"
  shows "\<exists>c. map_of (fst (columns_for_model mf columns exclude counter)) k = Some (Some c)"
proof -
  obtain fl n' where loop: "field_list_loop mf columns exclude counter = (fl, n')"
    by (cases "field_list_loop mf columns exclude counter")
  define fd where "fd = OrderedDict (map (\<lambda>(n, c). (n, Some c)) fl)"
  define inc where "inc = filter (\<lambda>c. c \<notin> set exclude) columns"
  have "map fst fl =
      filter (\<lambda>k. \<not> ((columns \<noteq> [] \<and> k \<notin> set columns) \<or> (exclude \<noteq> [] \<and> k \<in> set exclude)))
        (map f_name mf)"
    using field_list_loop_names [of mf columns exclude counter] loop by simp
  moreover have "k \<in> set (filter (\<lambda>k. \<not> ((columns \<noteq> [] \<and> k \<notin> set columns) \<or>
      (exclude \<noteq> [] \<and> k \<in> set exclude))) (map f_name mf))"
    using assms by auto
  ultimately have "k \<in> set (map fst fl)" by (simp only:)
  then have "k \<in> fst ` set fl" by simp
  then have "\<exists>c. map_of (rev (map (\<lambda>(n, c). (n, Some c)) fl)) k = Some (Some c)"
    by (rule map_of_rev_Some_columns)
  then obtain c where c: "map_of (rev (map (\<lambda>(n, c). (n, Some c)) fl)) k = Some (Some c)" ..
  have get: "od_get fd k = Some c"
    unfolding od_get_def fd_def map_of_OrderedDict c by simp
  have cfm: "fst (columns_for_model mf columns exclude counter) =
      OrderedDict (map (\<lambda>c. (c, od_get fd c)) inc)"
    unfolding columns_for_model_def loop fd_def inc_def
    using assms(1) by (simp add: exclude_filter)
  have "k \<in> set inc" using assms by (simp add: inc_def)
  then have "map_of (fst (columns_for_model mf columns exclude counter)) k = Some (od_get fd k)"
    unfolding cfm map_of_OrderedDict map_of_rev_graph by simp
  with get show ?thesis by simp
qed

lemma declared_lookup:
  assumes "distinct (map fst declared)"
  shows "map_of (rev (map (\<lambda>(n, c). (n, Some c)) declared)) n =
         (case map_of declared n of None \<Rightarrow> None | Some c \<Rightarrow> Some (Some c))"
proof -
  have d: "distinct (map fst (map (\<lambda>(n, c). (n, Some c)) declared))"
    using assms by (simp add: comp_def case_prod_unfold)
  have "map_of (map (\<lambda>(n, c). (n, Some c)) declared) n =
        (case map_of declared n of None \<Rightarrow> None | Some c \<Rightarrow> Some (Some c))"
    by (induction declared) auto
  with map_of_rev_distinct [OF d] show ?thesis by simp
qed

lemma metaclass_result:
  "fst (ModelTableMetaclass_new (Some mf) columns exclude declared counter) =
     od_update (fst (columns_for_model mf columns exclude counter))
       (map (\<lambda>(n, c). (n, Some c)) declared)"
  by (simp add: ModelTableMetaclass_new_def split: prod.splits)

lemma metaclass_keys:
  assumes dd: "distinct (map fst declared)"
  shows "map fst (fst (ModelTableMetaclass_new (Some mf) columns exclude declared counter)) =
     first_occurrences
       (filter (\<lambda>c. c \<notin> set exclude) (if columns \<noteq> [] then columns else map f_name mf)) @
     filter (\<lambda>n. n \<notin> set (filter (\<lambda>c. c \<notin> set exclude)
                              (if columns \<noteq> [] then columns else map f_name mf)))
       (map fst declared)"
proof -
  have fst_map: "map fst (map (\<lambda>(n, c). (n, Some c)) declared) = map fst declared"
    by (induction declared) auto
  have "distinct (filter P (map fst declared))" for P
    using dd by simp
  then show ?thesis
    unfolding metaclass_result od_update_keys columns_for_model_keys fst_map
    by (simp add: first_occurrences_distinct set_first_occurrences)
qed

lemma metaclass_lookup:
  assumes dd: "distinct (map fst declared)"
  shows "map_of (fst (ModelTableMetaclass_new (Some mf) columns exclude declared counter)) n =
     (case map_of declared n of
        Some c \<Rightarrow> Some (Some c)
      | None \<Rightarrow> map_of (fst (columns_for_model mf columns exclude counter)) n)"
  unfolding metaclass_result map_of_od_update
  by (simp add: map_add_def declared_lookup [OF dd] split: option.splits)

text \<open>
  C5, as the specification states it, fails: the declared columns that the include list
  does not name are not dropped, they follow the names of the include list. With the
  include list \<^verbatim>\<open>['capital']\<close> and the declared columns \<^verbatim>\<open>capital\<close> and \<^verbatim>\<open>projected\<close> (the
  third table of \<^verbatim>\<open>test_autogen_basic\<close>) the registry is \<^verbatim>\<open>capital, projected\<close>, and the
  include list restricted to the existing names is \<^verbatim>\<open>capital\<close> alone.
\<close>

theorem include_list_order_counterexample:
  "map fst (fst (ModelTableMetaclass_new (Some country_fields) [''capital''] []
                   capital_projected 2)) = [''capital'', ''projected''] \<and>
   filter (\<lambda>n. n \<in> set (map f_name country_fields) \<union> set (map fst capital_projected))
     [''capital''] = [''capital'']"
  by code_simp

text \<open>
  C5 (amended): for a build with a model and a non-empty include list whose names, as far
  as the exclude list does not name them, are fields of the model or declared columns, the
  registry lists first the names of the include list that the exclude list does not name,
  in the order of the include list (a repeated name at its first place), and then the
  declared columns that are not among them, in their declared order, whatever the creation
  counters are; and every entry holds a column.
\<close>

theorem include_list_order:
  assumes ne: "columns \<noteq> []"
    and dd: "distinct (map fst declared)"
    and known: "\<forall>c \<in> set columns. c \<notin> set exclude \<longrightarrow>
                  c \<in> f_name ` set mf \<union> fst ` set declared"
  shows "map fst (fst (ModelTableMetaclass_new (Some mf) columns exclude declared counter)) =
           first_occurrences (filter (\<lambda>c. c \<notin> set exclude) columns) @
           filter (\<lambda>n. n \<notin> set columns \<or> n \<in> set exclude) (map fst declared) \<and>
         (\<forall>n \<in> set (map fst (fst (ModelTableMetaclass_new (Some mf) columns exclude declared
                                     counter))).
            \<exists>c. map_of (fst (ModelTableMetaclass_new (Some mf) columns exclude declared counter)) n =
                  Some (Some c))"
proof -
  let ?res = "fst (ModelTableMetaclass_new (Some mf) columns exclude declared counter)"
  have "filter (\<lambda>n. n \<notin> set (filter (\<lambda>c. c \<notin> set exclude) columns)) (map fst declared) =
        filter (\<lambda>n. n \<notin> set columns \<or> n \<in> set exclude) (map fst declared)"
    by (rule filter_cong) auto
  with ne have keys: "map fst ?res =
           first_occurrences (filter (\<lambda>c. c \<notin> set exclude) columns) @
           filter (\<lambda>n. n \<notin> set columns \<or> n \<in> set exclude) (map fst declared)"
    using metaclass_keys [OF dd, of mf columns exclude counter] by simp
  have vals: "\<exists>c. map_of ?res n = Some (Some c)" if n: "n \<in> set (map fst ?res)" for n
  proof (cases "map_of declared n")
    case (Some c)
    then show ?thesis by (simp add: metaclass_lookup [OF dd])
  next
    case None
    then have nd: "n \<notin> fst ` set declared" by (simp add: map_of_eq_None_iff)
    with n keys have inc: "n \<in> set columns" "n \<notin> set exclude"
      by (auto simp: set_first_occurrences)
    with known nd have "n \<in> f_name ` set mf" by blast
    from columns_for_model_lookup [OF ne inc this, of counter] None show ?thesis
      by (simp add: metaclass_lookup [OF dd])
  qed
  from keys vals show ?thesis by blast
qed

theorem include_list_order_witness:
  "map fst (fst (ModelTableMetaclass_new (Some country_fields)
                   [''system'', ''population'', ''foo'', ''tld''] [''tld'']
                   ((''foo'', declared_column ''foo'' 0) # capital_projected) 3)) =
     [''system'', ''population'', ''foo'', ''capital'', ''projected'']"
proof -
  have ne: "[''system'', ''population'', ''foo'', ''tld''] \<noteq> []" by simp
  have dd: "distinct (map fst ((''foo'', declared_column ''foo'' 0) # capital_projected))"
    by (simp add: capital_projected_def)
  have known: "\<forall>c \<in> set [''system'', ''population'', ''foo'', ''tld''].
      c \<notin> set [''tld''] \<longrightarrow>
      c \<in> f_name ` set country_fields \<union>
          fst ` set ((''foo'', declared_column ''foo'' 0) # capital_projected)"
    by (simp add: country_fields_def capital_projected_def)
  have fo: "first_occurrences [''system'', ''population'', ''foo''] =
      [''system'', ''population'', ''foo'']"
    by (rule first_occurrences_distinct) simp
  from include_list_order [OF ne dd known, of 3, THEN conjunct1] fo show ?thesis
    by (simp add: capital_projected_def)
qed

text \<open>
  C6, as the specification states it, fails for a declared column: \<^verbatim>\<open>capital\<close> is named by
  the include list and by the exclude list, and it is in the registry, because it is
  declared.
\<close>

theorem declared_excluded_counterexample:
  "''capital'' \<in> set [''capital'', ''name''] \<and> ''capital'' \<in> set [''capital''] \<and>
   map fst (fst (ModelTableMetaclass_new (Some country_fields) [''capital'', ''name'']
                   [''capital''] capital_projected 2)) = [''name'', ''capital'', ''projected'']"
  by code_simp

text \<open>
  C6 (amended): a declared column always replaces the column synthesized for a field of the
  same name, and is always in the registry, whether the exclude list names it or not; a
  name of the exclude list that is not a declared column is absent from the registry, also
  when the include list names it.
\<close>

theorem declared_columns_win:
  assumes dd: "distinct (map fst declared)"
  shows "(\<forall>n c. (n, c) \<in> set declared \<longrightarrow>
            map_of (fst (ModelTableMetaclass_new (Some mf) columns exclude declared counter)) n =
              Some (Some c)) \<and>
         (\<forall>n. n \<in> set exclude \<and> n \<notin> fst ` set declared \<longrightarrow>
            n \<notin> set (map fst (fst (ModelTableMetaclass_new (Some mf) columns exclude declared
                                     counter))))"
proof -
  have 1: "map_of (fst (ModelTableMetaclass_new (Some mf) columns exclude declared counter)) n =
              Some (Some c)" if "(n, c) \<in> set declared" for n c
  proof -
    from that dd have "map_of declared n = Some c" by simp
    then show ?thesis by (simp add: metaclass_lookup [OF dd])
  qed
  have 2: "n \<notin> set (map fst (fst (ModelTableMetaclass_new (Some mf) columns exclude declared
                                     counter)))"
    if "n \<in> set exclude" "n \<notin> fst ` set declared" for n
    using that unfolding metaclass_keys [OF dd] by (auto simp: set_first_occurrences)
  from 1 2 show ?thesis by blast
qed

theorem declared_columns_win_witness:
  "map_of (fst (ModelTableMetaclass_new (Some country_fields) [''capital'', ''name'']
                  [''capital'', ''name''] capital_projected 2)) ''capital'' =
     Some (Some (declared_column ''Name of capital'' 0)) \<and>
   ''name'' \<notin> set (map fst (fst (ModelTableMetaclass_new (Some country_fields)
                  [''capital'', ''name''] [''capital'', ''name''] capital_projected 2)))"
proof -
  have dd: "distinct (map fst capital_projected)" by (simp add: capital_projected_def)
  note t = declared_columns_win [OF dd, of country_fields "[''capital'', ''name'']"
      "[''capital'', ''name'']" 2]
  have a: "(''capital'', declared_column ''Name of capital'' 0) \<in> set capital_projected"
    by (simp add: capital_projected_def)
  have b: "''name'' \<in> set [''capital'', ''name''] \<and> ''name'' \<notin> fst ` set capital_projected"
    by (simp add: capital_projected_def)
  from t a b show ?thesis by blast
qed

section \<open>Validating an ordering\<close>







end
